theory Spec2Isabelle
  imports Main "HOL-Library.Word"
begin

unbundle bit_operations_syntax

section \<open>Python strings and the interpreter's tables\<close>

text \<open>
  A Python \<^verbatim>\<open>str\<close> is a sequence of Unicode code points and \<^verbatim>\<open>len\<close> counts code
  points, so a string is a list of code points (natural numbers). A code point of a
  \<^verbatim>\<open>str\<close> is below 0x110000; the surrogates 0xD800..0xDFFF are code points a
  \<^verbatim>\<open>str\<close> may hold.
\<close>

type_synonym codepoint = nat
type_synonym pystr = "codepoint list"

text \<open>An ASCII literal of the source, as code points.\<close>

definition str :: "string \<Rightarrow> pystr" where
  "str s = map of_char s"

text \<open>
  \<^verbatim>\<open>str.isupper\<close>, \<^verbatim>\<open>str.islower\<close>, \<^verbatim>\<open>str.isdigit\<close>, \<^verbatim>\<open>str.lower\<close> and
  \<^verbatim>\<open>int\<close> read the interpreter's Unicode database, which is no part of the repository.
  On ASCII their behaviour is fixed and written out below; beyond ASCII it is a parameter:
  the record holds the database's answers for the code points from 128 on, and the
  interpreter's limit on the digits of an integer literal
  (\<^verbatim>\<open>sys.get_int_max_str_digits()\<close>, 0 when there is none).
\<close>

record interp =
  nonascii_isupper :: "codepoint \<Rightarrow> bool"
  nonascii_islower :: "codepoint \<Rightarrow> bool"
  nonascii_isdigit :: "codepoint \<Rightarrow> bool"
  nonascii_lower :: "pystr \<Rightarrow> pystr"
  nonascii_isspace :: "codepoint \<Rightarrow> bool"
  nonascii_decimal :: "codepoint \<Rightarrow> nat option"
  int_max_str_digits :: nat

text \<open>
  An interpreter whose tables are empty beyond ASCII, with CPython's default digit limit.
  It serves to evaluate the functions at ASCII inputs, where no table is consulted.
\<close>

definition ascii_tables :: interp where
  "ascii_tables =
     \<lparr>nonascii_isupper = (\<lambda>c. False), nonascii_islower = (\<lambda>c. False),
      nonascii_isdigit = (\<lambda>c. False), nonascii_lower = (\<lambda>s. s),
      nonascii_isspace = (\<lambda>c. False), nonascii_decimal = (\<lambda>c. None),
      int_max_str_digits = 4300\<rparr>"

text \<open>\<^verbatim>\<open>c.isupper()\<close>, \<^verbatim>\<open>c.islower()\<close>, \<^verbatim>\<open>c.isdigit()\<close> for a one-character string.\<close>

definition isupper :: "interp \<Rightarrow> codepoint \<Rightarrow> bool" where
  "isupper I c = (if c < 128 then 65 \<le> c \<and> c \<le> 90 else nonascii_isupper I c)"

definition islower :: "interp \<Rightarrow> codepoint \<Rightarrow> bool" where
  "islower I c = (if c < 128 then 97 \<le> c \<and> c \<le> 122 else nonascii_islower I c)"

definition isdigit :: "interp \<Rightarrow> codepoint \<Rightarrow> bool" where
  "isdigit I c = (if c < 128 then 48 \<le> c \<and> c \<le> 57 else nonascii_isdigit I c)"

definition isascii :: "pystr \<Rightarrow> bool" where
  "isascii s = list_all (\<lambda>c. c < 128) s"

definition ascii_lower :: "codepoint \<Rightarrow> codepoint" where
  "ascii_lower c = (if 65 \<le> c \<and> c \<le> 90 then c + 32 else c)"

definition ascii_upper :: "codepoint \<Rightarrow> codepoint" where
  "ascii_upper c = (if 97 \<le> c \<and> c \<le> 122 then c - 32 else c)"

text \<open>\<^verbatim>\<open>s.lower()\<close>: character by character on an ASCII string, the database's otherwise.\<close>

definition lower :: "interp \<Rightarrow> pystr \<Rightarrow> pystr" where
  "lower I s = (if isascii s then map ascii_lower s else nonascii_lower I s)"

text \<open>
  \<^verbatim>\<open>string.punctuation\<close>, the constant
  \<^verbatim>\<open>!"#$%&'()*+,-./:;<=>?@[\]^_`{|}~\<close> of the standard library, as code points.
\<close>

definition punctuation :: pystr where
  "punctuation =
     [33, 34, 35, 36, 37, 38, 39, 40, 41, 42, 43, 44, 45, 46, 47,
      58, 59, 60, 61, 62, 63, 64,
      91, 92, 93, 94, 95, 96,
      123, 124, 125, 126]"

section \<open>The class \<^verbatim>\<open>PasswordChecker\<close>: scoring\<close>

record PasswordChecker =
  common_passwords :: "pystr list"

text \<open>\<^verbatim>\<open>__init__\<close>: the sixteen common passwords.\<close>

definition init :: PasswordChecker where
  "init = \<lparr>common_passwords = map str
     [''123456'', ''password'', ''12345678'', ''qwerty'', ''123456789'', ''1234'',
      ''111111'', ''dragon'', ''123123'', ''baseball'', ''football'', ''monkey'',
      ''letmein'', ''shadow'', ''master'', ''qwertyuiop'']\<rparr>"

text \<open>\<^verbatim>\<open>password.lower() in (p.lower() for p in self.common_passwords)\<close>\<close>

definition is_generic_password :: "interp \<Rightarrow> PasswordChecker \<Rightarrow> pystr \<Rightarrow> bool" where
  "is_generic_password I self password =
     (lower I password \<in> set (map (lower I) (common_passwords self)))"

text \<open>
  \<^verbatim>\<open>score_password\<close>: the early return for a common password, then the five
  \<^verbatim>\<open>score += ...\<close> steps in the source's order. No operation of the body can raise,
  so the result is a plain integer.
\<close>

definition score_password :: "interp \<Rightarrow> PasswordChecker \<Rightarrow> pystr \<Rightarrow> int" where
  "score_password I self password =
     (if is_generic_password I self password then 0
      else
        let score = 0;
            score = (if 8 \<le> length password then score + 2
                     else if 5 \<le> length password then score + 1
                     else score);
            score = (if list_ex (isupper I) password then score + 2 else score);
            score = (if list_ex (islower I) password then score + 2 else score);
            score = (if list_ex (isdigit I) password then score + 2 else score);
            symbols = set punctuation;
            score = (if list_ex (\<lambda>c. c \<in> symbols) password then score + 2 else score)
        in score)"

subsection \<open>The scoring rule in the specification's words\<close>

text \<open>Length bonus: 2 from length 8 on, else 1 from length 5 on, else 0.\<close>

definition length_bonus :: "pystr \<Rightarrow> int" where
  "length_bonus p = (if 8 \<le> length p then 2 else if 5 \<le> length p then 1 else 0)"

definition indicator :: "bool \<Rightarrow> int" where
  "indicator b = (if b then 1 else 0)"

text \<open>The printable ASCII characters (33..126; 32 is the space) that are neither letters nor digits.\<close>

definition ascii_alnum :: "codepoint \<Rightarrow> bool" where
  "ascii_alnum c = ((48 \<le> c \<and> c \<le> 57) \<or> (65 \<le> c \<and> c \<le> 90) \<or> (97 \<le> c \<and> c \<le> 122))"

definition punct_class :: "codepoint set" where
  "punct_class = {c. 33 \<le> c \<and> c \<le> 126 \<and> \<not> ascii_alnum c}"

definition has_upper :: "interp \<Rightarrow> pystr \<Rightarrow> bool" where
  "has_upper I p = (\<exists>c. c \<in> set p \<and> isupper I c)"

definition has_lower :: "interp \<Rightarrow> pystr \<Rightarrow> bool" where
  "has_lower I p = (\<exists>c. c \<in> set p \<and> islower I c)"

definition has_digit :: "interp \<Rightarrow> pystr \<Rightarrow> bool" where
  "has_digit I p = (\<exists>c. c \<in> set p \<and> isdigit I c)"

definition has_punct :: "pystr \<Rightarrow> bool" where
  "has_punct p = (\<exists>c. c \<in> set p \<and> c \<in> punct_class)"

definition spec_score :: "interp \<Rightarrow> pystr \<Rightarrow> int" where
  "spec_score I p =
     length_bonus p + 2 * indicator (has_upper I p) + 2 * indicator (has_lower I p)
       + 2 * indicator (has_digit I p) + 2 * indicator (has_punct p)"

text \<open>
  The checks a string satisfies, for the monotonicity property. The two length tiers are
  thresholds: a string of length 8 or more satisfies both.
\<close>

datatype check = Len5 | Len8 | Upper | Lower | Digit | Punct

fun satisfies :: "interp \<Rightarrow> pystr \<Rightarrow> check \<Rightarrow> bool" where
  "satisfies I p Len5 = (5 \<le> length p)"
| "satisfies I p Len8 = (8 \<le> length p)"
| "satisfies I p Upper = has_upper I p"
| "satisfies I p Lower = has_lower I p"
| "satisfies I p Digit = has_digit I p"
| "satisfies I p Punct = has_punct p"

definition checks :: "interp \<Rightarrow> pystr \<Rightarrow> check set" where
  "checks I p = {k. satisfies I p k}"

section \<open>The class \<^verbatim>\<open>PasswordChecker\<close>: the breach check\<close>

subsection \<open>Exceptions\<close>

text \<open>
  The exceptions \<^verbatim>\<open>check_pwned_password\<close> can end with: the
  \<^verbatim>\<open>RuntimeError\<close> it raises itself, with its message; the
  \<^verbatim>\<open>UnicodeEncodeError\<close> of \<^verbatim>\<open>password.encode('utf-8')\<close>; the
  \<^verbatim>\<open>ValueError\<close> of unpacking \<^verbatim>\<open>for h, count in hashes\<close> and of
  \<^verbatim>\<open>int(count)\<close>.
\<close>

datatype error = RuntimeError pystr | UnicodeEncodeError | ValueError

subsection \<open>\<^verbatim>\<open>password.encode('utf-8')\<close>\<close>

type_synonym byte = "8 word"

definition is_surrogate :: "codepoint \<Rightarrow> bool" where
  "is_surrogate c = (0xD800 \<le> c \<and> c \<le> 0xDFFF)"

text \<open>The UTF-8 bytes of one code point; a surrogate has none and the codec raises.\<close>

definition utf8_char :: "codepoint \<Rightarrow> error + byte list" where
  "utf8_char c =
     (if c < 0x80 then Inr [of_nat c]
      else if c < 0x800 then Inr [of_nat (0xC0 + c div 64), of_nat (0x80 + c mod 64)]
      else if is_surrogate c then Inl UnicodeEncodeError
      else if c < 0x10000 then
        Inr [of_nat (0xE0 + c div 4096), of_nat (0x80 + c div 64 mod 64), of_nat (0x80 + c mod 64)]
      else
        Inr [of_nat (0xF0 + c div 262144), of_nat (0x80 + c div 4096 mod 64),
             of_nat (0x80 + c div 64 mod 64), of_nat (0x80 + c mod 64)])"

fun encode_utf8 :: "pystr \<Rightarrow> error + byte list" where
  "encode_utf8 [] = Inr []"
| "encode_utf8 (c # cs) =
     (case utf8_char c of
        Inl e \<Rightarrow> Inl e
      | Inr bs \<Rightarrow> (case encode_utf8 cs of Inl e \<Rightarrow> Inl e | Inr rest \<Rightarrow> Inr (bs @ rest)))"

subsection \<open>\<^verbatim>\<open>hashlib.sha1(...).hexdigest()\<close>\<close>

text \<open>
  SHA-1 as FIPS 180-4 defines it, on 32-bit words: the message is padded to a multiple of
  64 bytes, and each block updates the five-word state in 80 rounds over a sliding window
  of sixteen schedule words.
\<close>

type_synonym w32 = "32 word"
type_synonym sha_state = "w32 \<times> w32 \<times> w32 \<times> w32 \<times> w32"

definition rotl :: "nat \<Rightarrow> w32 \<Rightarrow> w32" where
  "rotl n w = push_bit n w OR drop_bit (32 - n) w"

definition be64 :: "nat \<Rightarrow> byte list" where
  "be64 n = map (\<lambda>i. of_nat (n div 256 ^ i)) [7, 6, 5, 4, 3, 2, 1, 0]"

definition pad :: "byte list \<Rightarrow> byte list" where
  "pad m = m @ [0x80] @ replicate ((119 - length m mod 64) mod 64) 0 @ be64 (8 * length m)"

fun blocks :: "nat \<Rightarrow> byte list \<Rightarrow> byte list list" where
  "blocks 0 bs = []"
| "blocks (Suc n) bs = take 64 bs # blocks n (drop 64 bs)"

fun be32 :: "byte list \<Rightarrow> w32 list" where
  "be32 (b0 # b1 # b2 # b3 # bs) =
     (push_bit 24 (ucast b0) OR push_bit 16 (ucast b1) OR push_bit 8 (ucast b2) OR ucast b3)
       # be32 bs"
| "be32 bs = []"

fun round :: "nat \<Rightarrow> w32 \<Rightarrow> sha_state \<Rightarrow> sha_state" where
  "round t w (a, b, c, d, e) =
     (let f = (if t < 20 then (b AND c) OR (NOT b AND d)
               else if t < 40 then b XOR c XOR d
               else if t < 60 then (b AND c) OR (b AND d) OR (c AND d)
               else b XOR c XOR d);
          k = (if t < 20 then 0x5A827999
               else if t < 40 then 0x6ED9EBA1
               else if t < 60 then 0x8F1BBCDC
               else 0xCA62C1D6)
      in (rotl 5 a + f + e + k + w, a, rotl 30 b, c, d))"

text \<open>The window holds the schedule words of rounds \<open>t\<close> to \<open>t + 15\<close>.\<close>

definition next_window :: "w32 list \<Rightarrow> w32 list" where
  "next_window ws = tl ws @ [rotl 1 (ws ! 13 XOR ws ! 8 XOR ws ! 2 XOR ws ! 0)]"

fun rounds :: "nat list \<Rightarrow> w32 list \<Rightarrow> sha_state \<Rightarrow> sha_state" where
  "rounds [] ws s = s"
| "rounds (t # ts) ws s = rounds ts (next_window ws) (round t (ws ! 0) s)"

fun add_state :: "sha_state \<Rightarrow> sha_state \<Rightarrow> sha_state" where
  "add_state (h0, h1, h2, h3, h4) (a, b, c, d, e) = (h0 + a, h1 + b, h2 + c, h3 + d, h4 + e)"

definition compress :: "sha_state \<Rightarrow> byte list \<Rightarrow> sha_state" where
  "compress h block = add_state h (rounds [0..<80] (be32 block) h)"

definition sha1 :: "byte list \<Rightarrow> sha_state" where
  "sha1 m =
     foldl compress (0x67452301, 0xEFCDAB89, 0x98BADCFE, 0x10325476, 0xC3D2E1F0)
       (blocks (length (pad m) div 64) (pad m))"

text \<open>\<^verbatim>\<open>hexdigest()\<close>: the twenty bytes of the state in lowercase hexadecimal.\<close>

definition hex_digit :: "nat \<Rightarrow> codepoint" where
  "hex_digit d = (if d < 10 then 48 + d else 87 + d)"

definition hex32 :: "w32 \<Rightarrow> pystr" where
  "hex32 w = map (\<lambda>i. hex_digit (unat (drop_bit (4 * i) w) mod 16)) [7, 6, 5, 4, 3, 2, 1, 0]"

fun hexdigest :: "sha_state \<Rightarrow> pystr" where
  "hexdigest (h0, h1, h2, h3, h4) = hex32 h0 @ hex32 h1 @ hex32 h2 @ hex32 h3 @ hex32 h4"

text \<open>
  \<^verbatim>\<open>sha1password = hashlib.sha1(password.encode('utf-8')).hexdigest().upper()\<close>;
  the digest is ASCII, where \<^verbatim>\<open>upper\<close> works character by character.
\<close>

definition sha1password_of :: "pystr \<Rightarrow> error + pystr" where
  "sha1password_of password =
     (case encode_utf8 password of
        Inl e \<Rightarrow> Inl e
      | Inr bs \<Rightarrow> Inr (map ascii_upper (hexdigest (sha1 bs))))"

subsection \<open>The HTTP request\<close>

text \<open>
  \<^verbatim>\<open>requests.get(url, timeout=10)\<close> either raises a
  \<^verbatim>\<open>RequestException\<close> (connection failure, timeout, ...), of which the model keeps
  the text \<^verbatim>\<open>str(e)\<close>, or returns a response. The remote service is a function from the
  requested URL to that outcome.
\<close>

record response =
  status_code :: nat
  reason :: pystr
  url :: pystr
  text' :: pystr

datatype outcome = Raised pystr | Returned response

type_synonym service = "pystr \<Rightarrow> outcome"

text \<open>\<^verbatim>\<open>str(n)\<close> for a natural number.\<close>

fun decimal :: "nat \<Rightarrow> pystr" where
  "decimal n = (if n < 10 then [48 + n] else decimal (n div 10) @ [48 + n mod 10])"

declare decimal.simps [simp del]

text \<open>
  \<^verbatim>\<open>response.raise_for_status()\<close> of the requests library: an
  \<^verbatim>\<open>HTTPError\<close> for a status from 400 to 599, with the library's message, and
  nothing for any other status. \<open>Some\<close> is the text of the exception raised.
\<close>

definition raise_for_status :: "response \<Rightarrow> pystr option" where
  "raise_for_status r =
     (if 400 \<le> status_code r \<and> status_code r < 500 then
        Some (decimal (status_code r) @ str '' Client Error: '' @ reason r
              @ str '' for url: '' @ url r)
      else if 500 \<le> status_code r \<and> status_code r < 600 then
        Some (decimal (status_code r) @ str '' Server Error: '' @ reason r
              @ str '' for url: '' @ url r)
      else None)"

subsection \<open>Reading the response\<close>

text \<open>\<^verbatim>\<open>str.splitlines()\<close>: the line boundaries of a \<^verbatim>\<open>str\<close>; CR LF is one boundary.\<close>

definition is_linebreak :: "codepoint \<Rightarrow> bool" where
  "is_linebreak c = (c \<in> {10, 11, 12, 13, 28, 29, 30, 133, 8232, 8233})"

fun splitlines_from :: "pystr \<Rightarrow> pystr \<Rightarrow> pystr list" where
  "splitlines_from cur [] = (if cur = [] then [] else [cur])"
| "splitlines_from cur [c] = (if is_linebreak c then [cur] else [cur @ [c]])"
| "splitlines_from cur (c # d # cs) =
     (if c = 13 \<and> d = 10 then cur # splitlines_from [] cs
      else if is_linebreak c then cur # splitlines_from [] (d # cs)
      else splitlines_from (cur @ [c]) (d # cs))"

definition splitlines :: "pystr \<Rightarrow> pystr list" where
  "splitlines s = splitlines_from [] s"

text \<open>\<^verbatim>\<open>line.split(':')\<close>: the fields between the colons, at least one.\<close>

fun split_from :: "pystr \<Rightarrow> pystr \<Rightarrow> pystr list" where
  "split_from cur [] = [cur]"
| "split_from cur (c # cs) =
     (if c = 58 then cur # split_from [] cs else split_from (cur @ [c]) cs)"

definition split_colon :: "pystr \<Rightarrow> pystr list" where
  "split_colon line = split_from [] line"

text \<open>
  \<^verbatim>\<open>int(count)\<close> on a \<^verbatim>\<open>str\<close>, as CPython reads a base-10 literal: whitespace and
  decimal digits beyond ASCII are first mapped to a space and to the ASCII digit; then
  come optional ASCII whitespace, an optional sign, digits with single underscores between
  them, optional whitespace and the end. Anything else, and a literal of more digits than
  the interpreter's limit allows, is a \<^verbatim>\<open>ValueError\<close>.
\<close>

definition ascii_space :: "codepoint \<Rightarrow> bool" where
  "ascii_space c = (c = 32 \<or> (9 \<le> c \<and> c \<le> 13))"

definition ascii_digit :: "codepoint \<Rightarrow> bool" where
  "ascii_digit c = (48 \<le> c \<and> c \<le> 57)"

definition to_ascii :: "interp \<Rightarrow> codepoint \<Rightarrow> codepoint option" where
  "to_ascii I c =
     (if c < 128 then Some c
      else if nonascii_isspace I c then Some 32
      else (case nonascii_decimal I c of
              None \<Rightarrow> None
            | Some d \<Rightarrow> if d < 10 then Some (48 + d) else None))"

fun double_underscore :: "pystr \<Rightarrow> bool" where
  "double_underscore (a # b # cs) = ((a = 95 \<and> b = 95) \<or> double_underscore (b # cs))"
| "double_underscore cs = False"

definition decimal_value :: "pystr \<Rightarrow> nat" where
  "decimal_value ds = foldl (\<lambda>n c. 10 * n + (c - 48)) 0 ds"

definition too_many_digits :: "interp \<Rightarrow> nat \<Rightarrow> bool" where
  "too_many_digits I n = (640 < n \<and> 0 < int_max_str_digits I \<and> int_max_str_digits I < n)"

definition py_int :: "interp \<Rightarrow> pystr \<Rightarrow> error + int" where
  "py_int I s =
     (case those (map (to_ascii I) s) of
        None \<Rightarrow> Inl ValueError
      | Some a \<Rightarrow>
          let a = dropWhile ascii_space a;
              negative = (case a of [] \<Rightarrow> False | c # cs \<Rightarrow> c = 45);
              a = (case a of [] \<Rightarrow> [] | c # cs \<Rightarrow> if c = 43 \<or> c = 45 then cs else c # cs);
              body = takeWhile (\<lambda>c. ascii_digit c \<or> c = 95) a;
              rest = dropWhile ascii_space (dropWhile (\<lambda>c. ascii_digit c \<or> c = 95) a);
              digits = filter ascii_digit body
          in if body = [] \<or> \<not> ascii_digit (hd body) \<or> \<not> ascii_digit (last body)
                \<or> double_underscore body \<or> rest \<noteq> []
             then Inl ValueError
             else if too_many_digits I (length digits) then Inl ValueError
             else Inr ((if negative then - 1 else 1) * int (decimal_value digits)))"

subsection \<open>\<^verbatim>\<open>check_pwned_password\<close>\<close>

text \<open>
  The loop \<^verbatim>\<open>for h, count in hashes\<close> over the lazily split lines: a line that does not
  split into exactly two fields fails to unpack when the loop reaches it.
\<close>

fun scan :: "interp \<Rightarrow> pystr \<Rightarrow> pystr list \<Rightarrow> error + int" where
  "scan I suffix [] = Inr 0"
| "scan I suffix (line # rest) =
     (case split_colon line of
        [h, count] \<Rightarrow> if h = suffix then py_int I count else scan I suffix rest
      | _ \<Rightarrow> Inl ValueError)"

definition api_base :: pystr where
  "api_base = str ''https://api.pwnedpasswords.com/range/''"

text \<open>
  The result is paired with the URLs the call has requested from the service, in order:
  none when the encoding fails before the request, one otherwise.
\<close>

definition check_pwned_password :: "interp \<Rightarrow> service \<Rightarrow> pystr \<Rightarrow> pystr list \<times> (error + int)" where
  "check_pwned_password I svc password =
     (case sha1password_of password of
        Inl e \<Rightarrow> ([], Inl e)
      | Inr sha1password \<Rightarrow>
          let prefix = take 5 sha1password;
              suffix = drop 5 sha1password;
              url = api_base @ prefix
          in ([url],
              case svc url of
                Raised e \<Rightarrow> Inl (RuntimeError (str ''Network error: '' @ e))
              | Returned response \<Rightarrow>
                  (case raise_for_status response of
                     Some e \<Rightarrow> Inl (RuntimeError (str ''Network error: '' @ e))
                   | None \<Rightarrow> scan I suffix (splitlines (text' response)))))"

subsection \<open>Calls in sequence\<close>

text \<open>
  \<^verbatim>\<open>main\<close> creates one \<^verbatim>\<open>PasswordChecker\<close> and then serves its menu in a loop: choice 1
  calls \<^verbatim>\<open>score_password\<close> and choice 2 calls \<^verbatim>\<open>check_pwned_password\<close>, on that one
  object. What a later call can see of an earlier one is the state both share: the object,
  and the remote service, which has a state of its own and may answer the same request
  differently the next time.
\<close>

type_synonym 's remote = "'s \<Rightarrow> pystr \<Rightarrow> outcome \<times> 's"

type_synonym exchange = "pystr \<times> outcome"

datatype call = Score pystr | Check pystr

datatype reply = Scored int | Checked "error + int"

text \<open>
  One call in a state. \<^verbatim>\<open>score_password\<close> reads \<^verbatim>\<open>self.common_passwords\<close>, assigns its
  local variables only and makes no request. \<^verbatim>\<open>check_pwned_password\<close> assigns no attribute
  either; the request it makes (at most one) is answered by the service in its state of the
  moment and moves the service to its next state. Each call is listed with its result and
  with the requests it made and the answers it got.
\<close>

fun step ::
  "interp \<Rightarrow> 's remote \<Rightarrow> call \<Rightarrow> PasswordChecker \<times> 's
     \<Rightarrow> (reply \<times> exchange list) \<times> (PasswordChecker \<times> 's)" where
  "step I remote (Score password) (self, s) =
     ((Scored (score_password I self password), []), (self, s))"
| "step I remote (Check password) (self, s) =
     (case check_pwned_password I (\<lambda>u. fst (remote s u)) password of
        (urls, res) \<Rightarrow>
          ((Checked res, map (\<lambda>u. (u, fst (remote s u))) urls),
           (self, foldl (\<lambda>s u. snd (remote s u)) s urls)))"

fun run ::
  "interp \<Rightarrow> 's remote \<Rightarrow> call list \<Rightarrow> PasswordChecker \<times> 's
     \<Rightarrow> (reply \<times> exchange list) list \<times> (PasswordChecker \<times> 's)" where
  "run I remote [] w = ([], w)"
| "run I remote (c # cs) w =
     (case step I remote c w of
        (x, w') \<Rightarrow> (case run I remote cs w' of (xs, w'') \<Rightarrow> (x # xs, w'')))"

subsection \<open>The breach check in the specification's words\<close>

text \<open>An uppercase hexadecimal digit: \<^verbatim>\<open>0\<close> to \<^verbatim>\<open>9\<close>, \<^verbatim>\<open>A\<close> to \<^verbatim>\<open>F\<close>.\<close>

definition is_upper_hex :: "codepoint \<Rightarrow> bool" where
  "is_upper_hex c = ((48 \<le> c \<and> c \<le> 57) \<or> (65 \<le> c \<and> c \<le> 70))"

text \<open>
  A line \<^verbatim>\<open>SUFFIX:COUNT\<close>: exactly two fields around one colon, the second a non-empty
  string of ASCII digits that the interpreter's digit limit admits.
\<close>

definition count_literal :: "interp \<Rightarrow> pystr \<Rightarrow> bool" where
  "count_literal I c = (c \<noteq> [] \<and> list_all ascii_digit c \<and> \<not> too_many_digits I (length c))"

definition pair_line :: "interp \<Rightarrow> pystr \<Rightarrow> bool" where
  "pair_line I l = (case split_colon l of [h, c] \<Rightarrow> count_literal I c | _ \<Rightarrow> False)"

text \<open>The fields of a line, its count read in base 10, and the count of the first line
  whose suffix field is the one looked for (0 when there is none).\<close>

definition line_suffix :: "pystr \<Rightarrow> pystr" where
  "line_suffix l = (case split_colon l of [] \<Rightarrow> [] | h # fs \<Rightarrow> h)"

definition line_count :: "pystr \<Rightarrow> int" where
  "line_count l = (case split_colon l of [h, c] \<Rightarrow> int (decimal_value c) | _ \<Rightarrow> 0)"

definition lookup :: "pystr \<Rightarrow> pystr list \<Rightarrow> int" where
  "lookup suffix ls = (case find (\<lambda>l. line_suffix l = suffix) ls of None \<Rightarrow> 0 | Some l \<Rightarrow> line_count l)"

text \<open>
  A line unpacks when it splits into exactly two fields; it matches when moreover its first
  field is the suffix. A matching line is unsigned when it holds no minus sign. A line is
  malformed when it does not unpack, or matches with a count that \<^verbatim>\<open>int\<close> rejects.
\<close>

definition unpacks :: "pystr \<Rightarrow> bool" where
  "unpacks l = (length (split_colon l) = 2)"

definition matches :: "pystr \<Rightarrow> pystr \<Rightarrow> bool" where
  "matches suffix l = (unpacks l \<and> line_suffix l = suffix)"

definition unsigned_match :: "pystr \<Rightarrow> pystr \<Rightarrow> bool" where
  "unsigned_match suffix l = (\<not> matches suffix l \<or> 45 \<notin> set l)"

definition malformed :: "interp \<Rightarrow> pystr \<Rightarrow> pystr \<Rightarrow> bool" where
  "malformed I suffix l =
     (\<not> unpacks l \<or> (\<exists>c. split_colon l = [suffix, c] \<and> isl (py_int I c)))"

text \<open>
  A network failure: the request raised, or the response has a status from 400 to 599;
  its cause is the text of the exception.
\<close>

definition network_failure :: "outcome \<Rightarrow> bool" where
  "network_failure out =
     (case out of Raised e \<Rightarrow> True | Returned r \<Rightarrow> 400 \<le> status_code r \<and> status_code r < 600)"

definition cause :: "outcome \<Rightarrow> pystr" where
  "cause out =
     (case out of
        Raised e \<Rightarrow> e
      | Returned r \<Rightarrow> (case raise_for_status r of None \<Rightarrow> [] | Some e \<Rightarrow> e))"


subsection \<open>Sample services and response bodies\<close>

text \<open>
  Services that answer every request with one response, or refuse every request, and one
  that answers a single URL only; three response bodies, with CR LF and LF line ends.
\<close>

definition respond :: "nat \<Rightarrow> pystr \<Rightarrow> pystr \<Rightarrow> service" where
  "respond status phrase body u = Returned \<lparr>status_code = status, reason = phrase, url = u, text' = body\<rparr>"

definition refuse :: "pystr \<Rightarrow> service" where
  "refuse e u = Raised e"

definition only_at :: "pystr \<Rightarrow> service \<Rightarrow> service" where
  "only_at u0 svc u = (if u = u0 then svc u else Raised (str ''unreachable''))"

definition sample_body :: pystr where
  "sample_body =
     str ''0018A45C4D1DEF81644B54AB7F969B88D65:1'' @ [13, 10]
     @ str ''1E4C9B93F3F0682250B6CF8331B7EE68FD8:3730471'' @ [13, 10]
     @ str ''011053FD0102E94D6AE2F8B83D76FAF94F6:2''"

definition signed_body :: pystr where
  "signed_body = str ''1E4C9B93F3F0682250B6CF8331B7EE68FD8:-5''"

definition broken_body :: pystr where
  "broken_body =
     str ''0018A45C4D1DEF81644B54AB7F969B88D65:1'' @ [10]
     @ str ''Service busy'' @ [10]
     @ str ''1E4C9B93F3F0682250B6CF8331B7EE68FD8:3730471''"


definition fading :: "nat remote" where
  "fading n u = (respond 200 (str ''OK'') (if n = 0 then sample_body else []) u, Suc n)"

section \<open>Scoring: lemmas\<close>

lemma set_punctuation: "set punctuation = punct_class"
proof -
  have "c \<in> set punctuation \<longleftrightarrow> c \<in> punct_class" for c
  proof
    assume "c \<in> set punctuation"
    then show "c \<in> punct_class"
      by (auto simp: punctuation_def punct_class_def ascii_alnum_def)
  next
    assume "c \<in> punct_class"
    then have "(33 \<le> c \<and> c \<le> 47) \<or> (58 \<le> c \<and> c \<le> 64) \<or> (91 \<le> c \<and> c \<le> 96)
        \<or> (123 \<le> c \<and> c \<le> 126)"
      by (auto simp: punct_class_def ascii_alnum_def)
    then show "c \<in> set punctuation"
      unfolding punctuation_def by simp arith
  qed
  then show ?thesis by blast
qed

lemma distinct_punctuation: "distinct punctuation"
  by (simp add: punctuation_def)

lemma card_punct_class: "card punct_class = 32"
proof -
  have "card (set punctuation) = length punctuation"
    using distinct_punctuation by (rule distinct_card)
  then have "card punct_class = length punctuation"
    by (simp only: set_punctuation)
  then show ?thesis
    by (simp add: punctuation_def)
qed

lemma list_ex_has_upper: "list_ex (isupper I) p = has_upper I p"
  by (auto simp: has_upper_def list_ex_iff)

lemma list_ex_has_lower: "list_ex (islower I) p = has_lower I p"
  by (auto simp: has_lower_def list_ex_iff)

lemma list_ex_has_digit: "list_ex (isdigit I) p = has_digit I p"
  by (auto simp: has_digit_def list_ex_iff)

lemma list_ex_has_punct: "list_ex (\<lambda>c. c \<in> set punctuation) p = has_punct p"
  by (auto simp: has_punct_def list_ex_iff set_punctuation)

lemma score_password_not_generic:
  "\<not> is_generic_password I self p \<Longrightarrow> score_password I self p = spec_score I p"
  by (simp add: score_password_def spec_score_def length_bonus_def indicator_def Let_def
      list_ex_has_upper list_ex_has_lower list_ex_has_digit list_ex_has_punct)

lemma spec_score_bounds: "0 \<le> spec_score I p \<and> spec_score I p \<le> 10"
  by (simp add: spec_score_def length_bonus_def indicator_def)

section \<open>The breach check: lemmas\<close>

lemma length_hex32: "length (hex32 w) = 8"
  by (simp add: hex32_def)

lemma length_hexdigest: "length (hexdigest s) = 40"
  by (cases s) (simp add: length_hex32)

lemma hex_digit_upper: "d < 16 \<Longrightarrow> is_upper_hex (ascii_upper (hex_digit d))"
  by (auto simp: hex_digit_def ascii_upper_def is_upper_hex_def)

lemma hex32_upper: "list_all is_upper_hex (map ascii_upper (hex32 w))"
  by (simp add: hex32_def hex_digit_upper)

lemma hexdigest_upper: "list_all is_upper_hex (map ascii_upper (hexdigest s))"
  by (cases s) (simp add: hex32_upper)

lemma sha1password_of_shape:
  assumes "sha1password_of p = Inr h"
  shows "length h = 40 \<and> list_all is_upper_hex h"
  using assms
  by (auto simp: sha1password_of_def length_hexdigest hexdigest_upper split: sum.splits)

lemma encode_utf8_ok:
  "\<not> list_ex is_surrogate p \<Longrightarrow> \<exists>bs. encode_utf8 p = Inr bs"
proof (induction p)
  case Nil
  then show ?case by simp
next
  case (Cons c cs)
  then obtain rest where "encode_utf8 cs = Inr rest" by auto
  moreover have "\<exists>bs. utf8_char c = Inr bs"
    using Cons.prems by (simp add: utf8_char_def)
  ultimately show ?case by auto
qed

lemma utf8_char_error: "utf8_char c = Inl e \<Longrightarrow> e = UnicodeEncodeError \<and> is_surrogate c"
  by (auto simp: utf8_char_def split: if_splits)

lemma encode_utf8_error:
  "encode_utf8 p = Inl e \<Longrightarrow> e = UnicodeEncodeError \<and> list_ex is_surrogate p"
proof (induction p)
  case Nil
  then show ?case by simp
next
  case (Cons c cs)
  then show ?case
    by (auto split: sum.splits dest: utf8_char_error)
qed

lemma sha1password_of_ok:
  "\<not> list_ex is_surrogate p \<Longrightarrow> \<exists>bs. encode_utf8 p = Inr bs \<and>
     sha1password_of p = Inr (map ascii_upper (hexdigest (sha1 bs)))"
  using encode_utf8_ok [of p] by (auto simp: sha1password_of_def)

lemma split_from_not_Nil: "split_from cur s \<noteq> []"
  by (induction s arbitrary: cur) auto

lemma py_int_error: "py_int I c = Inl e \<Longrightarrow> e = ValueError"
  by (auto simp: py_int_def Let_def split: option.splits if_splits)

lemma those_map_id:
  "list_all (\<lambda>c. c < 128) s \<Longrightarrow> those (map (to_ascii I) s) = Some s"
  by (induction s) (auto simp: to_ascii_def)

lemma ascii_digit_lt: "ascii_digit c \<Longrightarrow> c < 128"
  by (simp add: ascii_digit_def)

lemma ascii_digit_not_space: "ascii_digit c \<Longrightarrow> \<not> ascii_space c"
  by (auto simp: ascii_digit_def ascii_space_def)

lemma double_underscore_digits: "list_all ascii_digit s \<Longrightarrow> \<not> double_underscore s"
  by (induction s rule: double_underscore.induct) (auto simp: ascii_digit_def)

lemma py_int_count_literal:
  assumes "count_literal I c"
  shows "py_int I c = Inr (int (decimal_value c))"
proof -
  from assms have ne: "c \<noteq> []" and dig: "list_all ascii_digit c"
    and lim: "\<not> too_many_digits I (length c)"
    by (simp_all add: count_literal_def)
  from dig have asc: "list_all (\<lambda>c. c < 128) c"
    by (induction c) (auto dest: ascii_digit_lt)
  obtain d ds where c: "c = d # ds" using ne by (cases c) auto
  have d: "ascii_digit d" using dig c by simp
  have dw: "dropWhile ascii_space c = c"
    using d c by (simp add: ascii_digit_not_space)
  have neg: "(case c of [] \<Rightarrow> False | x # xs \<Rightarrow> x = 45) = False"
    using d c by (auto simp: ascii_digit_def)
  have sgn: "(case c of [] \<Rightarrow> [] | x # xs \<Rightarrow> if x = 43 \<or> x = 45 then xs else x # xs) = c"
    using d c by (auto simp: ascii_digit_def)
  have tw: "takeWhile (\<lambda>c. ascii_digit c \<or> c = 95) c = c"
    using dig by (simp add: list_all_iff)
  have dr: "dropWhile (\<lambda>c. ascii_digit c \<or> c = 95) c = []"
    using dig by (simp add: list_all_iff)
  have fl: "filter ascii_digit c = c"
    using dig by (simp add: list_all_iff)
  have hd: "ascii_digit (hd c)" using d c by simp
  have la: "ascii_digit (last c)" using dig ne by (simp add: list_all_iff)
  have du: "\<not> double_underscore c" using dig by (rule double_underscore_digits)
  show ?thesis
    unfolding py_int_def those_map_id [OF asc]
    by (simp only: option.case Let_def dw neg sgn tw dr fl) (simp add: ne hd la du lim)
qed

lemma pair_lineD:
  "pair_line I l \<Longrightarrow> \<exists>h c. split_colon l = [h, c] \<and> count_literal I c"
  by (auto simp: pair_line_def split: list.splits)

lemma scan_pairs:
  "list_all (pair_line I) ls \<Longrightarrow> scan I suffix ls = Inr (lookup suffix ls)"
proof (induction ls)
  case Nil
  then show ?case by (simp add: lookup_def)
next
  case (Cons l ls)
  then obtain h c where sp: "split_colon l = [h, c]" and lit: "count_literal I c"
    using pair_lineD [of I l] by auto
  have rest: "scan I suffix ls = Inr (lookup suffix ls)"
    using Cons by simp
  show ?case
  proof (cases "h = suffix")
    case True
    then show ?thesis
      using sp py_int_count_literal [OF lit]
      by (simp add: lookup_def line_suffix_def line_count_def)
  next
    case False
    then show ?thesis
      using sp rest by (simp add: lookup_def line_suffix_def)
  qed
qed

lemma not_unpacks_case:
  "\<not> unpacks l \<Longrightarrow> (case split_colon l of [h, c] \<Rightarrow> f h c | _ \<Rightarrow> g) = g"
  by (auto simp: unpacks_def split: list.splits)

lemma unpacksD: "unpacks l \<Longrightarrow> \<exists>h c. split_colon l = [h, c]"
  by (cases "split_colon l" rule: list.exhaust; simp add: unpacks_def)
     (metis Suc_length_conv length_0_conv)

lemma scan_skip:
  assumes "\<not> matches suffix x"
  shows "scan I suffix (x # ls) = Inl ValueError \<or> scan I suffix (x # ls) = scan I suffix ls"
proof (cases "unpacks x")
  case True
  then obtain h c where sp: "split_colon x = [h, c]" using unpacksD by blast
  with assms True have "h \<noteq> suffix" by (auto simp: matches_def line_suffix_def)
  then show ?thesis using sp by simp
next
  case False
  then show ?thesis by (simp add: not_unpacks_case)
qed

lemma scan_malformed:
  "\<not> list_ex (matches suffix) pre \<Longrightarrow> \<not> unpacks l \<Longrightarrow>
     scan I suffix (pre @ l # post) = Inl ValueError"
proof (induction pre)
  case Nil
  then show ?case by (simp add: not_unpacks_case)
next
  case (Cons x pre)
  then have "scan I suffix (pre @ l # post) = Inl ValueError" by simp
  moreover have "\<not> matches suffix x" using Cons.prems by simp
  ultimately show ?case using scan_skip [of suffix x I "pre @ l # post"] by auto
qed

lemma scan_bad_count:
  "\<not> list_ex (matches suffix) pre \<Longrightarrow> split_colon l = [suffix, c] \<Longrightarrow> py_int I c = Inl e \<Longrightarrow>
     scan I suffix (pre @ l # post) = Inl ValueError"
proof (induction pre)
  case Nil
  then show ?case using py_int_error by auto
next
  case (Cons x pre)
  then have "scan I suffix (pre @ l # post) = Inl ValueError" by simp
  moreover have "\<not> matches suffix x" using Cons.prems by simp
  ultimately show ?case using scan_skip [of suffix x I "pre @ l # post"] by auto
qed

lemma to_ascii_minus: "to_ascii I c = Some 45 \<Longrightarrow> c = 45"
  by (auto simp: to_ascii_def split: if_splits option.splits)

lemma those_to_ascii_minus:
  "those (map (to_ascii I) s) = Some a \<Longrightarrow> 45 \<notin> set s \<Longrightarrow> 45 \<notin> set a"
proof (induction s arbitrary: a)
  case Nil
  then show ?case by simp
next
  case (Cons c cs)
  then show ?case
    by (auto split: option.splits dest: to_ascii_minus)
qed

lemma py_int_unsigned:
  assumes "py_int I c = Inr n" and "45 \<notin> set c"
  shows "0 \<le> n"
proof -
  from assms(1) obtain a where a: "those (map (to_ascii I) c) = Some a"
    by (auto simp: py_int_def split: option.splits)
  have "45 \<notin> set a" using those_to_ascii_minus [OF a assms(2)] .
  then have "45 \<notin> set (dropWhile ascii_space a)"
    using set_dropWhileD by fastforce
  then have nd: "45 \<notin> set (dropWhile ascii_space a)" .
  have neg: "(case dropWhile ascii_space a of [] \<Rightarrow> False | x # xs \<Rightarrow> x = 45) = False"
  proof (cases "dropWhile ascii_space a")
    case Nil
    then show ?thesis by (simp only: list.case)
  next
    case (Cons x xs)
    then have "x \<in> set (dropWhile ascii_space a)" by simp
    with nd have "x \<noteq> 45" by auto
    then show ?thesis unfolding Cons by simp
  qed
  show ?thesis
    using assms(1) unfolding py_int_def a option.case Let_def neg
    by (auto split: if_splits)
qed

lemma set_split_from:
  "f \<in> set (split_from cur s) \<Longrightarrow> set f \<subseteq> set cur \<union> set s"
proof (induction s arbitrary: cur)
  case Nil
  then show ?case by simp
next
  case (Cons c cs)
  show ?case
  proof (cases "c = 58")
    case True
    with Cons.prems have "f = cur \<or> f \<in> set (split_from [] cs)" by simp
    then show ?thesis using Cons.IH [of "[]"] by auto
  next
    case False
    with Cons.prems have "f \<in> set (split_from (cur @ [c]) cs)" by simp
    then show ?thesis using Cons.IH [of "cur @ [c]"] by auto
  qed
qed

lemma scan_nonneg:
  "scan I suffix ls = Inr n \<Longrightarrow> list_all (unsigned_match suffix) ls \<Longrightarrow> 0 \<le> n"
proof (induction ls)
  case Nil
  then show ?case by simp
next
  case (Cons l ls)
  show ?case
  proof (cases "unpacks l")
    case False
    then show ?thesis using Cons.prems(1) by (simp add: not_unpacks_case)
  next
    case True
    then obtain h c where sp: "split_colon l = [h, c]" using unpacksD by blast
    show ?thesis
    proof (cases "h = suffix")
      case False
      then show ?thesis using Cons sp by simp
    next
      case True
      then have "matches suffix l"
        using sp \<open>unpacks l\<close> by (simp add: matches_def line_suffix_def)
      then have "45 \<notin> set l" using Cons.prems(2) by (simp add: unsigned_match_def)
      moreover have "set c \<subseteq> set l"
        using set_split_from [of c "[]" l] sp by (simp add: split_colon_def)
      ultimately have "45 \<notin> set c" by auto
      moreover have "py_int I c = Inr n" using Cons.prems(1) sp True by simp
      ultimately show ?thesis by (rule py_int_unsigned [rotated])
    qed
  qed
qed

lemma check_returned:
  "sha1password_of p = Inr h \<Longrightarrow> svc (api_base @ take 5 h) = Returned r \<Longrightarrow>
   raise_for_status r = None \<Longrightarrow>
   check_pwned_password I svc p =
     ([api_base @ take 5 h], scan I (drop 5 h) (splitlines (text' r)))"
  by (simp add: check_pwned_password_def Let_def)

lemma requests_sent:
  "fst (check_pwned_password I svc p) =
     (case sha1password_of p of Inl e \<Rightarrow> [] | Inr h \<Rightarrow> [api_base @ take 5 h])"
  by (simp add: check_pwned_password_def Let_def split: sum.splits)

lemma length_api_base: "length api_base = 37"
  by (simp add: api_base_def str_def)

lemma hash_not_in_url:
  assumes "length h = 40" and "list_all is_upper_hex h"
  shows "\<nexists>a b. api_base @ take 5 h = a @ h @ b"
proof
  assume "\<exists>a b. api_base @ take 5 h = a @ h @ b"
  then obtain a b where eq: "api_base @ take 5 h = a @ h @ b" by blast
  then have "length (api_base @ take 5 h) = length (a @ h @ b)" by simp
  then have la: "length a \<le> 2"
    using assms(1) by (simp add: length_api_base)
  have "(api_base @ take 5 h) ! 36 = 47"
    by (simp add: nth_append api_base_def str_def)
  moreover have "(a @ h @ b) ! 36 = h ! (36 - length a)"
  proof -
    have "\<not> 36 < length a" using la by simp
    moreover have "36 - length a < length h" using assms(1) by simp
    ultimately show ?thesis by (simp add: nth_append)
  qed
  ultimately have "h ! (36 - length a) = 47" using eq by simp
  moreover have "h ! (36 - length a) \<in> set h"
    using assms(1) by simp
  ultimately have "is_upper_hex 47"
    using assms(2) by (metis list_all_iff)
  then show False by (simp add: is_upper_hex_def)
qed

lemma utf8_char_surrogate: "is_surrogate c \<Longrightarrow> utf8_char c = Inl UnicodeEncodeError"
  by (simp add: utf8_char_def is_surrogate_def)

lemma encode_utf8_surrogate:
  "list_ex is_surrogate p \<Longrightarrow> encode_utf8 p = Inl UnicodeEncodeError"
proof (induction p)
  case Nil
  then show ?case by simp
next
  case (Cons c cs)
  show ?case
  proof (cases "is_surrogate c")
    case True
    then show ?thesis by (simp add: utf8_char_surrogate)
  next
    case False
    with Cons have rest: "encode_utf8 cs = Inl UnicodeEncodeError" by simp
    show ?thesis
    proof (cases "utf8_char c")
      case (Inl e)
      then show ?thesis using utf8_char_error [OF Inl] by simp
    next
      case (Inr bs)
      then show ?thesis using rest by simp
    qed
  qed
qed

lemma check_surrogate:
  "list_ex is_surrogate p \<Longrightarrow> check_pwned_password I svc p = ([], Inl UnicodeEncodeError)"
  by (simp add: check_pwned_password_def sha1password_of_def encode_utf8_surrogate)




section \<open>SHA-1 at two passwords\<close>

text \<open>
  The digests of \<^verbatim>\<open>password\<close> and \<^verbatim>\<open>blic\<close>, computed stage by stage: the bytes, the
  padded block, its sixteen words, the eighty rounds, the final state and its rendering.
  Both begin with \<^verbatim>\<open>5BAA6\<close>.
\<close>

lemma replicate_numeral: "replicate (numeral k) x = x # replicate (pred_numeral k) x"
  by (simp add: numeral_eq_Suc)

lemma sha1password_of_password:
  "sha1password_of (str ''password'') = Inr (str ''5BAA61E4C9B93F3F0682250B6CF8331B7EE68FD8'')"
proof -
  have enc: "encode_utf8 (str ''password'') = Inr [112, 97, 115, 115, 119, 111, 114, 100]"
    by (simp add: str_def utf8_char_def)
  have padded: "pad [112, 97, 115, 115, 119, 111, 114, 100] =
      [112, 97, 115, 115, 119, 111, 114, 100, 128, 0, 0, 0, 0, 0, 0, 0, 0, 0, 0, 0, 0,
      0, 0, 0, 0, 0, 0, 0, 0, 0, 0, 0, 0, 0, 0, 0, 0, 0, 0, 0, 0, 0, 0, 0, 0, 0, 0, 0,
      0, 0, 0, 0, 0, 0, 0, 0, 0, 0, 0, 0, 0, 0, 0, 64]"
    by (simp add: pad_def be64_def replicate_numeral)
  have split: "blocks (length (pad [112, 97, 115, 115, 119, 111, 114, 100]) div 64) (pad [112, 97, 115, 115, 119, 111, 114, 100]) =
      [[112, 97, 115, 115, 119, 111, 114, 100, 128, 0, 0, 0, 0, 0, 0, 0, 0, 0, 0, 0, 0,
      0, 0, 0, 0, 0, 0, 0, 0, 0, 0, 0, 0, 0, 0, 0, 0, 0, 0, 0, 0, 0, 0, 0, 0, 0, 0, 0,
      0, 0, 0, 0, 0, 0, 0, 0, 0, 0, 0, 0, 0, 0, 0, 64]]"
    unfolding padded by simp
  have words: "be32 [112, 97, 115, 115, 119, 111, 114, 100, 128, 0, 0, 0, 0, 0, 0, 0, 0, 0, 0, 0, 0,
      0, 0, 0, 0, 0, 0, 0, 0, 0, 0, 0, 0, 0, 0, 0, 0, 0, 0, 0, 0, 0, 0, 0, 0, 0, 0, 0,
      0, 0, 0, 0, 0, 0, 0, 0, 0, 0, 0, 0, 0, 0, 0, 64] =
      [1885434739, 2003792484, 2147483648, 0, 0, 0, 0, 0, 0, 0, 0, 0, 0, 0, 0, 64]"
    by simp
  have run: "rounds [0..<80]
      [1885434739, 2003792484, 2147483648, 0, 0, 0, 0, 0, 0, 0, 0, 0, 0, 0, 0, 64]
      (1732584193, 4023233417, 2562383102, 271733878, 3285377520) =
      (4100275939, 3656094646, 1841776653, 1556471461, 3138629096)"
    by (simp add: rotl_def next_window_def upt_conv_Cons)
  have digest: "sha1 [112, 97, 115, 115, 119, 111, 114, 100] =
      (1537892836, 3384360767, 109192459, 1828205339, 2129039320)"
    unfolding sha1_def split by (simp add: compress_def words run)
  have hex: "map ascii_upper (hexdigest (1537892836, 3384360767, 109192459, 1828205339, 2129039320)) =
      str ''5BAA61E4C9B93F3F0682250B6CF8331B7EE68FD8''"
    by (simp add: hex32_def hex_digit_def ascii_upper_def str_def drop_bit_eq_div unat_div)
  show ?thesis
    by (simp only: sha1password_of_def enc sum.case digest hex)
qed

lemma sha1password_of_blic:
  "sha1password_of (str ''blic'') = Inr (str ''5BAA6AB91F322902BFFCEC5C4FC22F2D69761736'')"
proof -
  have enc: "encode_utf8 (str ''blic'') = Inr [98, 108, 105, 99]"
    by (simp add: str_def utf8_char_def)
  have padded: "pad [98, 108, 105, 99] =
      [98, 108, 105, 99, 128, 0, 0, 0, 0, 0, 0, 0, 0, 0, 0, 0, 0, 0, 0, 0, 0, 0, 0, 0,
      0, 0, 0, 0, 0, 0, 0, 0, 0, 0, 0, 0, 0, 0, 0, 0, 0, 0, 0, 0, 0, 0, 0, 0, 0, 0, 0,
      0, 0, 0, 0, 0, 0, 0, 0, 0, 0, 0, 0, 32]"
    by (simp add: pad_def be64_def replicate_numeral)
  have split: "blocks (length (pad [98, 108, 105, 99]) div 64) (pad [98, 108, 105, 99]) =
      [[98, 108, 105, 99, 128, 0, 0, 0, 0, 0, 0, 0, 0, 0, 0, 0, 0, 0, 0, 0, 0, 0, 0, 0,
      0, 0, 0, 0, 0, 0, 0, 0, 0, 0, 0, 0, 0, 0, 0, 0, 0, 0, 0, 0, 0, 0, 0, 0, 0, 0, 0,
      0, 0, 0, 0, 0, 0, 0, 0, 0, 0, 0, 0, 32]]"
    unfolding padded by simp
  have words: "be32 [98, 108, 105, 99, 128, 0, 0, 0, 0, 0, 0, 0, 0, 0, 0, 0, 0, 0, 0, 0, 0, 0, 0, 0,
      0, 0, 0, 0, 0, 0, 0, 0, 0, 0, 0, 0, 0, 0, 0, 0, 0, 0, 0, 0, 0, 0, 0, 0, 0, 0, 0,
      0, 0, 0, 0, 0, 0, 0, 0, 0, 0, 0, 0, 32] =
      [1651272035, 2147483648, 0, 0, 0, 0, 0, 0, 0, 0, 0, 0, 0, 0, 0, 32]"
    by simp
  have run: "rounds [0..<80]
      [1651272035, 2147483648, 0, 0, 0, 0, 0, 0, 0, 0, 0, 0, 0, 0, 0, 32]
      (1732584193, 4023233417, 2562383102, 271733878, 3285377520) =
      (4100278200, 795114873, 658640734, 1066392247, 2778936646)"
    by (simp add: rotl_def next_window_def upt_conv_Cons)
  have digest: "sha1 [98, 108, 105, 99] =
      (1537895097, 523380994, 3221023836, 1338126125, 1769346870)"
    unfolding sha1_def split by (simp add: compress_def words run)
  have hex: "map ascii_upper (hexdigest (1537895097, 523380994, 3221023836, 1338126125, 1769346870)) =
      str ''5BAA6AB91F322902BFFCEC5C4FC22F2D69761736''"
    by (simp add: hex32_def hex_digit_def ascii_upper_def str_def drop_bit_eq_div unat_div)
  show ?thesis
    by (simp only: sha1password_of_def enc sum.case digest hex)
qed

section \<open>The sample responses, evaluated\<close>

lemma str_append: "str (a @ b) = str a @ str b"
  by (simp add: str_def)

lemma password_url:
  "api_base @ take 5 (str ''5BAA61E4C9B93F3F0682250B6CF8331B7EE68FD8'')
     = str ''https://api.pwnedpasswords.com/range/5BAA6''"
  by (simp add: api_base_def str_def)

lemma password_suffix:
  "drop 5 (str ''5BAA61E4C9B93F3F0682250B6CF8331B7EE68FD8'')
     = str ''1E4C9B93F3F0682250B6CF8331B7EE68FD8''"
  by (simp add: str_def)

lemma sample_lines:
  "splitlines sample_body =
     [str ''0018A45C4D1DEF81644B54AB7F969B88D65:1'',
      str ''1E4C9B93F3F0682250B6CF8331B7EE68FD8:3730471'',
      str ''011053FD0102E94D6AE2F8B83D76FAF94F6:2'']"
  by (simp add: sample_body_def str_def splitlines_def is_linebreak_def)

lemma sample_fields:
  "split_colon (str ''0018A45C4D1DEF81644B54AB7F969B88D65:1'')
     = [str ''0018A45C4D1DEF81644B54AB7F969B88D65'', str ''1'']"
  "split_colon (str ''1E4C9B93F3F0682250B6CF8331B7EE68FD8:3730471'')
     = [str ''1E4C9B93F3F0682250B6CF8331B7EE68FD8'', str ''3730471'']"
  "split_colon (str ''011053FD0102E94D6AE2F8B83D76FAF94F6:2'')
     = [str ''011053FD0102E94D6AE2F8B83D76FAF94F6'', str ''2'']"
  by (simp_all add: str_def split_colon_def)

lemma sample_pairs: "list_all (pair_line ascii_tables) (splitlines sample_body)"
  unfolding sample_lines
  by (simp add: pair_line_def sample_fields)
     (simp add: count_literal_def str_def ascii_digit_def too_many_digits_def)

lemma sample_lookup:
  "lookup (str ''1E4C9B93F3F0682250B6CF8331B7EE68FD8'') (splitlines sample_body) = 3730471"
  unfolding sample_lines
  by (simp add: lookup_def line_suffix_def line_count_def sample_fields)
     (simp add: str_def decimal_value_def)

lemma ok_status: "raise_for_status \<lparr>status_code = 200, reason = x, url = u, text' = b\<rparr> = None"
  by (simp add: raise_for_status_def)

lemmas score_eval =
  score_password_def is_generic_password_def init_def str_def lower_def isascii_def
  ascii_lower_def isupper_def islower_def isdigit_def punctuation_def

section \<open>Scoring: the claims\<close>

text \<open>
  C2. For every password that is not, case-insensitively, in the common-password set, the
  score is the length bonus plus 2 for each of the four character classes the password
  holds a character of; the length bonus is 2 from length 8 on, else 1 from length 5 on,
  else 0; the punctuation class is the set of the 32 printable ASCII characters that are
  neither alphanumeric nor the space.
\<close>

theorem C2_score_formula:
  assumes "\<not> is_generic_password I self p"
  shows "score_password I self p =
           length_bonus p + 2 * indicator (has_upper I p) + 2 * indicator (has_lower I p)
             + 2 * indicator (has_digit I p) + 2 * indicator (has_punct p)
         \<and> length_bonus p = (if 8 \<le> length p then 2 else if 5 \<le> length p then 1 else 0)
         \<and> card punct_class = 32"
  using assms
  by (simp add: score_password_not_generic spec_score_def card_punct_class length_bonus_def)

theorem C2_score_formula_witness:
  "\<not> is_generic_password ascii_tables init (str ''Tr0ub4dor&3'')
   \<and> score_password ascii_tables init (str ''Tr0ub4dor&3'') = 10
   \<and> length_bonus (str ''Tr0ub4dor&3'') + 2 * indicator (has_upper ascii_tables (str ''Tr0ub4dor&3''))
       + 2 * indicator (has_lower ascii_tables (str ''Tr0ub4dor&3''))
       + 2 * indicator (has_digit ascii_tables (str ''Tr0ub4dor&3''))
       + 2 * indicator (has_punct (str ''Tr0ub4dor&3'')) = 10"
proof -
  have ng: "\<not> is_generic_password ascii_tables init (str ''Tr0ub4dor&3'')"
    by (simp add: score_eval)
  have sc: "score_password ascii_tables init (str ''Tr0ub4dor&3'') = 10"
    by (simp add: score_eval)
  show ?thesis
    using C2_score_formula [OF ng] ng sc by simp
qed

text \<open>
  C3. Every string whose lower-casing equals the lower-casing of an entry of the
  common-password list scores 0, whatever its length and its characters.
\<close>

theorem C3_common_scores_zero:
  assumes "e \<in> set (common_passwords init)" and "lower I s = lower I e"
  shows "score_password I init s = 0"
proof -
  have "lower I s \<in> set (map (lower I) (common_passwords init))"
    using assms by (metis image_eqI set_map)
  then show ?thesis
    by (simp add: score_password_def is_generic_password_def)
qed

theorem C3_common_scores_zero_witness:
  "str ''password'' \<in> set (common_passwords init)
   \<and> lower ascii_tables (str ''PassWord'') = lower ascii_tables (str ''password'')
   \<and> score_password ascii_tables init (str ''PassWord'') = 0"
proof -
  have a: "str ''password'' \<in> set (common_passwords init)"
    by (simp add: init_def)
  have b: "lower ascii_tables (str ''PassWord'') = lower ascii_tables (str ''password'')"
    by (simp add: str_def lower_def isascii_def ascii_lower_def)
  show ?thesis
    using C3_common_scores_zero [OF a b] a b by simp
qed

text \<open>
  C6. The score of every string, the empty string and strings of arbitrary code points
  included, is an integer from 0 to 10 (the function has no error result), and the empty
  string scores 0.
\<close>

theorem C6_score_total_bounded:
  "0 \<le> score_password I self p \<and> score_password I self p \<le> 10
   \<and> score_password I init [] = 0"
proof -
  have "0 \<le> score_password I self p \<and> score_password I self p \<le> 10"
  proof (cases "is_generic_password I self p")
    case True
    then show ?thesis by (simp add: score_password_def)
  next
    case False
    then show ?thesis
      using spec_score_bounds [of I p] by (simp add: score_password_not_generic)
  qed
  moreover have "score_password I init [] = 0"
    by (simp add: score_eval)
  ultimately show ?thesis by simp
qed

theorem C6_score_total_bounded_witness:
  "0 \<le> score_password ascii_tables init [8364, 55296, 97]
   \<and> score_password ascii_tables init [8364, 55296, 97] \<le> 10
   \<and> score_password ascii_tables init [] = 0"
  using C6_score_total_bounded [of ascii_tables init "[8364, 55296, 97]"] by simp

text \<open>
  C7. Of two strings outside the common-password set, one that satisfies every check the
  other satisfies (length at least 5, length at least 8, uppercase, lowercase, digit,
  punctuation) scores at least as much.
\<close>

theorem C7_score_monotone:
  assumes "\<not> is_generic_password I self p" and "\<not> is_generic_password I self q"
    and "checks I p \<subseteq> checks I q"
  shows "score_password I self p \<le> score_password I self q"
proof -
  have sub: "satisfies I p k \<Longrightarrow> satisfies I q k" for k
    using assms(3) by (auto simp: checks_def)
  have len: "length_bonus p \<le> length_bonus q"
    using sub [of Len5] sub [of Len8] by (simp add: length_bonus_def)
  have up: "indicator (has_upper I p) \<le> indicator (has_upper I q)"
    using sub [of Upper] by (simp add: indicator_def)
  have lo: "indicator (has_lower I p) \<le> indicator (has_lower I q)"
    using sub [of Lower] by (simp add: indicator_def)
  have di: "indicator (has_digit I p) \<le> indicator (has_digit I q)"
    using sub [of Digit] by (simp add: indicator_def)
  have pu: "indicator (has_punct p) \<le> indicator (has_punct q)"
    using sub [of Punct] by (simp add: indicator_def)
  have "spec_score I p \<le> spec_score I q"
    using len up lo di pu by (simp add: spec_score_def)
  then show ?thesis
    using assms(1,2) by (simp add: score_password_not_generic)
qed

theorem C7_score_monotone_witness:
  "\<not> is_generic_password ascii_tables init (str ''abc'')
   \<and> \<not> is_generic_password ascii_tables init (str ''abcdE'')
   \<and> checks ascii_tables (str ''abc'') \<subseteq> checks ascii_tables (str ''abcdE'')
   \<and> score_password ascii_tables init (str ''abc'') = 2
   \<and> score_password ascii_tables init (str ''abcdE'') = 5
   \<and> score_password ascii_tables init (str ''abc'') \<le> score_password ascii_tables init (str ''abcdE'')"
proof -
  have a: "\<not> is_generic_password ascii_tables init (str ''abc'')"
    by (simp add: score_eval)
  have b: "\<not> is_generic_password ascii_tables init (str ''abcdE'')"
    by (simp add: score_eval)
  have "satisfies ascii_tables (str ''abc'') k \<Longrightarrow> satisfies ascii_tables (str ''abcdE'') k" for k
    by (cases k)
      (simp_all add: list_ex_has_upper [symmetric] list_ex_has_lower [symmetric]
        list_ex_has_digit [symmetric] list_ex_has_punct [symmetric] score_eval)
  then have c: "checks ascii_tables (str ''abc'') \<subseteq> checks ascii_tables (str ''abcdE'')"
    by (auto simp: checks_def)
  have d: "score_password ascii_tables init (str ''abc'') = 2"
    by (simp add: score_eval)
  have e: "score_password ascii_tables init (str ''abcdE'') = 5"
    by (simp add: score_eval)
  show ?thesis
    using C7_score_monotone [OF a b c] a b c d e by simp
qed

section \<open>Two sample sessions\<close>

text \<open>
  Against the service that always answers alike, equal calls get equal results although
  the state of the service changes between them; against the service whose answer changes,
  the two breach checks differ.
\<close>

lemma check_sample:
  assumes "svc (str ''https://api.pwnedpasswords.com/range/5BAA6'')
      = Returned \<lparr>status_code = 200, reason = x, url = u, text' = sample_body\<rparr>"
  shows "check_pwned_password ascii_tables svc (str ''password'')
      = ([str ''https://api.pwnedpasswords.com/range/5BAA6''], Inr 3730471)"
  using check_returned [of "str ''password''" "str ''5BAA61E4C9B93F3F0682250B6CF8331B7EE68FD8''"
      svc "\<lparr>status_code = 200, reason = x, url = u, text' = sample_body\<rparr>" ascii_tables]
    sha1password_of_password assms ok_status scan_pairs [OF sample_pairs]
  by (simp add: password_url password_suffix sample_lookup)

lemma check_empty:
  assumes "svc (str ''https://api.pwnedpasswords.com/range/5BAA6'')
      = Returned \<lparr>status_code = 200, reason = x, url = u, text' = []\<rparr>"
  shows "check_pwned_password ascii_tables svc (str ''password'')
      = ([str ''https://api.pwnedpasswords.com/range/5BAA6''], Inr 0)"
  using check_returned [of "str ''password''" "str ''5BAA61E4C9B93F3F0682250B6CF8331B7EE68FD8''"
      svc "\<lparr>status_code = 200, reason = x, url = u, text' = []\<rparr>" ascii_tables]
    sha1password_of_password assms ok_status
  by (simp add: password_url splitlines_def)


lemma fading_session:
  "map fst (fst (run ascii_tables fading [Check (str ''password''), Check (str ''password'')] (init, 0)))
   = [Checked (Inr 3730471), Checked (Inr 0)]"
proof -
  have a: "check_pwned_password ascii_tables (\<lambda>u. fst (fading 0 u)) (str ''password'')
      = ([str ''https://api.pwnedpasswords.com/range/5BAA6''], Inr 3730471)"
    by (rule check_sample) (simp add: fading_def respond_def)
  have b: "check_pwned_password ascii_tables (\<lambda>u. fst (fading (Suc 0) u)) (str ''password'')
      = ([str ''https://api.pwnedpasswords.com/range/5BAA6''], Inr 0)"
    by (rule check_empty) (simp add: fading_def respond_def)
  have n: "snd (fading 0 u) = Suc 0" for u by (simp add: fading_def)
  show ?thesis
    by (simp add: a b n)
qed

section \<open>The breach check: the claims\<close>

text \<open>
  C1. What the breach check sends to the service is one GET request, for the URL made of
  the fixed base and the first five characters of the uppercase hexadecimal SHA-1 digest
  of the password's UTF-8 bytes. Two passwords whose digests agree on these five
  characters cause the same requests, whatever the service answers; and the full digest
  is no part of the URL. (A password with no UTF-8 encoding causes no request at all:
  lemma \<open>requests_sent\<close>.)
\<close>

theorem C1_only_prefix_sent:
  assumes "sha1password_of p = Inr h" and "sha1password_of q = Inr h'"
    and "take 5 h = take 5 h'"
  shows "fst (check_pwned_password I svc p) = [api_base @ take 5 h]
     \<and> fst (check_pwned_password I' svc' q) = fst (check_pwned_password I svc p)
     \<and> (\<nexists>a b. api_base @ take 5 h = a @ h @ b)"
  using assms sha1password_of_shape [OF assms(1)] hash_not_in_url [of h]
  by (simp add: requests_sent)

theorem C1_only_prefix_sent_witness:
  "sha1password_of (str ''password'') = Inr (str ''5BAA61E4C9B93F3F0682250B6CF8331B7EE68FD8'')
   \<and> sha1password_of (str ''blic'') = Inr (str ''5BAA6AB91F322902BFFCEC5C4FC22F2D69761736'')
   \<and> take 5 (str ''5BAA61E4C9B93F3F0682250B6CF8331B7EE68FD8'')
       = take 5 (str ''5BAA6AB91F322902BFFCEC5C4FC22F2D69761736'')
   \<and> fst (check_pwned_password ascii_tables (respond 200 (str ''OK'') sample_body) (str ''password''))
       = [str ''https://api.pwnedpasswords.com/range/5BAA6'']
   \<and> fst (check_pwned_password ascii_tables (refuse (str ''timed out'')) (str ''blic''))
       = [str ''https://api.pwnedpasswords.com/range/5BAA6'']"
proof -
  have t: "take 5 (str ''5BAA61E4C9B93F3F0682250B6CF8331B7EE68FD8'')
       = take 5 (str ''5BAA6AB91F322902BFFCEC5C4FC22F2D69761736'')"
    by (simp add: str_def)
  have u: "api_base @ take 5 (str ''5BAA61E4C9B93F3F0682250B6CF8331B7EE68FD8'')
       = str ''https://api.pwnedpasswords.com/range/5BAA6''"
    by (simp add: api_base_def str_def)
  show ?thesis
    using C1_only_prefix_sent [OF sha1password_of_password sha1password_of_blic t,
        of ascii_tables "respond 200 (str ''OK'') sample_body" ascii_tables
           "refuse (str ''timed out'')"]
      sha1password_of_password sha1password_of_blic t u
    by simp
qed

text \<open>
  C4, as amended. For every password that has a UTF-8 encoding (no surrogate code point)
  the digest is 40 uppercase hexadecimal characters, split into a prefix of 5 and a suffix
  of 35; and when the service answers the request with a response that
  \<^verbatim>\<open>raise_for_status\<close> accepts and whose lines all are \<^verbatim>\<open>SUFFIX:COUNT\<close> pairs, the result
  is the count of the first line whose suffix field equals the computed suffix, character
  for character, and 0 when no line has it.
\<close>

theorem C4_lookup:
  assumes "\<not> list_ex is_surrogate password"
  shows "\<exists>bs h. encode_utf8 password = Inr bs
     \<and> h = map ascii_upper (hexdigest (sha1 bs))
     \<and> length h = 40 \<and> list_all is_upper_hex h
     \<and> length (take 5 h) = 5 \<and> length (drop 5 h) = 35
     \<and> (svc (api_base @ take 5 h) = Returned r \<and> raise_for_status r = None
          \<and> list_all (pair_line I) (splitlines (text' r))
        \<longrightarrow> check_pwned_password I svc password
              = ([api_base @ take 5 h], Inr (lookup (drop 5 h) (splitlines (text' r)))))"
proof -
  from sha1password_of_ok [OF assms] obtain bs where
    bs: "encode_utf8 password = Inr bs"
    and h: "sha1password_of password = Inr (map ascii_upper (hexdigest (sha1 bs)))"
    by blast
  define h where "h = map ascii_upper (hexdigest (sha1 bs))"
  have sh: "sha1password_of password = Inr h"
    using \<open>sha1password_of password = Inr (map ascii_upper (hexdigest (sha1 bs)))\<close>
    by (simp add: h_def)
  have shape: "length h = 40 \<and> list_all is_upper_hex h"
    using sha1password_of_shape [OF sh] .
  have "check_pwned_password I svc password
      = ([api_base @ take 5 h], Inr (lookup (drop 5 h) (splitlines (text' r))))"
    if "svc (api_base @ take 5 h) = Returned r" and "raise_for_status r = None"
      and "list_all (pair_line I) (splitlines (text' r))"
    using check_returned [of password h svc r I] sh that(1,2)
      scan_pairs [of I "splitlines (text' r)" "drop 5 h"] that(3)
    by simp
  then show ?thesis
    using bs shape h_def by auto
qed

theorem C4_lookup_witness:
  "\<not> list_ex is_surrogate (str ''password'')
   \<and> sha1password_of (str ''password'') = Inr (str ''5BAA61E4C9B93F3F0682250B6CF8331B7EE68FD8'')
   \<and> list_all (pair_line ascii_tables) (splitlines sample_body)
   \<and> check_pwned_password ascii_tables (respond 200 (str ''OK'') sample_body) (str ''password'')
       = ([str ''https://api.pwnedpasswords.com/range/5BAA6''], Inr 3730471)"
proof -
  let ?svc = "respond 200 (str ''OK'') sample_body"
  let ?h = "str ''5BAA61E4C9B93F3F0682250B6CF8331B7EE68FD8''"
  let ?r = "\<lparr>status_code = 200, reason = str ''OK'', url = api_base @ take 5 ?h,
             text' = sample_body\<rparr>"
  have ns: "\<not> list_ex is_surrogate (str ''password'')"
    by (simp add: str_def is_surrogate_def)
  from C4_lookup [OF ns, of ?svc ?r ascii_tables] obtain bs h where
    bs: "encode_utf8 (str ''password'') = Inr bs"
    and h: "h = map ascii_upper (hexdigest (sha1 bs))"
    and imp: "?svc (api_base @ take 5 h) = Returned ?r \<and> raise_for_status ?r = None
          \<and> list_all (pair_line ascii_tables) (splitlines (text' ?r))
        \<longrightarrow> check_pwned_password ascii_tables ?svc (str ''password'')
              = ([api_base @ take 5 h], Inr (lookup (drop 5 h) (splitlines (text' ?r))))"
    by blast
  have "sha1password_of (str ''password'') = Inr h"
    using bs h by (simp add: sha1password_of_def)
  then have hh: "h = ?h"
    using sha1password_of_password by simp
  have "?svc (api_base @ take 5 h) = Returned ?r"
    by (simp add: respond_def hh)
  moreover have "raise_for_status ?r = None" by (rule ok_status)
  moreover have "list_all (pair_line ascii_tables) (splitlines (text' ?r))"
    using sample_pairs by simp
  ultimately have "check_pwned_password ascii_tables ?svc (str ''password'')
      = ([api_base @ take 5 h], Inr (lookup (drop 5 h) (splitlines (text' ?r))))"
    using imp by blast
  then have "check_pwned_password ascii_tables ?svc (str ''password'')
      = ([str ''https://api.pwnedpasswords.com/range/5BAA6''], Inr 3730471)"
    by (simp add: hh password_url password_suffix sample_lookup)
  then show ?thesis
    using ns sha1password_of_password sample_pairs by simp
qed

text \<open>
  C4 as stated fails at a password that holds a lone surrogate: the encoding raises
  \<^verbatim>\<open>UnicodeEncodeError\<close> before any hash is computed or request made.
\<close>

theorem C4_counterexample:
  "check_pwned_password ascii_tables (respond 200 (str ''OK'') sample_body) [0xD800]
     = ([], Inl UnicodeEncodeError)"
  by (simp add: check_pwned_password_def sha1password_of_def utf8_char_def is_surrogate_def)

text \<open>
  C5, as amended. When the request raises (connection failure, timeout, ...) or the
  response has a status from 400 to 599, the breach check ends with a
  \<^verbatim>\<open>RuntimeError\<close> whose message is \<^verbatim>\<open>Network error: \<close> followed by the text of the
  underlying exception, and returns no count.
\<close>

theorem C5_network_error:
  assumes "sha1password_of p = Inr h"
    and "network_failure (svc (api_base @ take 5 h))"
  shows "snd (check_pwned_password I svc p)
       = Inl (RuntimeError (str ''Network error: '' @ cause (svc (api_base @ take 5 h))))
     \<and> (\<forall>n. snd (check_pwned_password I svc p) \<noteq> Inr n)"
proof (cases "svc (api_base @ take 5 h)")
  case (Raised e)
  then show ?thesis
    using assms(1) by (simp add: check_pwned_password_def Let_def cause_def)
next
  case (Returned r)
  with assms(2) have "400 \<le> status_code r \<and> status_code r < 600"
    by (simp add: network_failure_def)
  then obtain e where "raise_for_status r = Some e"
    by (cases "status_code r < 500") (simp_all add: raise_for_status_def)
  then show ?thesis
    using assms(1) Returned by (simp add: check_pwned_password_def Let_def cause_def)
qed

theorem C5_network_error_witness:
  "sha1password_of (str ''password'') = Inr (str ''5BAA61E4C9B93F3F0682250B6CF8331B7EE68FD8'')
   \<and> network_failure (respond 503 (str ''Service Unavailable'') sample_body
        (str ''https://api.pwnedpasswords.com/range/5BAA6''))
   \<and> snd (check_pwned_password ascii_tables (respond 503 (str ''Service Unavailable'') sample_body)
        (str ''password''))
       = Inl (RuntimeError (str ''Network error: 503 Server Error: Service Unavailable for url: https://api.pwnedpasswords.com/range/5BAA6''))"
proof -
  let ?svc = "respond 503 (str ''Service Unavailable'') sample_body"
  let ?u = "str ''https://api.pwnedpasswords.com/range/5BAA6''"
  have nf: "network_failure (?svc ?u)"
    by (simp add: network_failure_def respond_def)
  then have nf': "network_failure
      (?svc (api_base @ take 5 (str ''5BAA61E4C9B93F3F0682250B6CF8331B7EE68FD8'')))"
    by (simp only: password_url)
  have c: "cause (?svc ?u)
      = str ''503 Server Error: Service Unavailable for url: https://api.pwnedpasswords.com/range/5BAA6''"
    by (simp add: cause_def respond_def raise_for_status_def decimal.simps str_def)
  show ?thesis
    using C5_network_error [of "str ''password''"
        "str ''5BAA61E4C9B93F3F0682250B6CF8331B7EE68FD8''" ?svc ascii_tables]
      sha1password_of_password nf nf' c
    by (simp add: password_url str_append [symmetric])
qed

text \<open>
  C5 as stated fails at a status outside 200..299 that \<^verbatim>\<open>raise_for_status\<close> lets
  pass: a 304 response with an empty body makes the breach check return 0.
\<close>

theorem C5_counterexample:
  "check_pwned_password ascii_tables (respond 304 (str ''Not Modified'') []) (str ''password'')
     = ([str ''https://api.pwnedpasswords.com/range/5BAA6''], Inr 0)"
  by (simp add: check_pwned_password_def sha1password_of_password Let_def password_url
      password_suffix respond_def raise_for_status_def splitlines_def)

text \<open>
  C8, as amended. When the breach check returns a count and no matching line of the
  response holds a minus sign, the count is at least 0.
\<close>

theorem C8_count_nonneg:
  assumes "sha1password_of p = Inr h"
    and "svc (api_base @ take 5 h) = Returned r"
    and "snd (check_pwned_password I svc p) = Inr n"
    and "list_all (unsigned_match (drop 5 h)) (splitlines (text' r))"
  shows "0 \<le> n"
proof -
  have "raise_for_status r = None"
    using assms(1,2,3)
    by (cases "raise_for_status r") (simp_all add: check_pwned_password_def Let_def)
  then have "scan I (drop 5 h) (splitlines (text' r)) = Inr n"
    using check_returned [of p h svc r I] assms(1,2,3) by simp
  then show ?thesis
    using assms(4) by (rule scan_nonneg)
qed

theorem C8_count_nonneg_witness:
  "sha1password_of (str ''password'') = Inr (str ''5BAA61E4C9B93F3F0682250B6CF8331B7EE68FD8'')
   \<and> list_all (unsigned_match (str ''1E4C9B93F3F0682250B6CF8331B7EE68FD8'')) (splitlines sample_body)
   \<and> snd (check_pwned_password ascii_tables (respond 200 (str ''OK'') sample_body) (str ''password''))
       = Inr 3730471
   \<and> (0::int) \<le> 3730471"
proof -
  let ?svc = "respond 200 (str ''OK'') sample_body"
  let ?h = "str ''5BAA61E4C9B93F3F0682250B6CF8331B7EE68FD8''"
  let ?r = "\<lparr>status_code = 200, reason = str ''OK'', url = api_base @ take 5 ?h,
             text' = sample_body\<rparr>"
  have ret: "?svc (api_base @ take 5 ?h) = Returned ?r"
    by (simp add: respond_def)
  have res: "snd (check_pwned_password ascii_tables ?svc (str ''password'')) = Inr 3730471"
    using check_returned [of "str ''password''" ?h ?svc ?r ascii_tables]
      sha1password_of_password ret ok_status scan_pairs [OF sample_pairs]
    by (simp add: password_suffix sample_lookup)
  have un: "list_all (unsigned_match (drop 5 ?h)) (splitlines (text' ?r))"
    by (simp add: sample_lines unsigned_match_def str_def)
  show ?thesis
    using C8_count_nonneg [OF sha1password_of_password ret res un]
      sha1password_of_password res un
    by (simp add: password_suffix)
qed

text \<open>
  C8 as stated fails at a response whose matching line carries a negative count:
  \<^verbatim>\<open>int\<close> accepts a signed literal and the breach check returns it.
\<close>

theorem C8_counterexample:
  "check_pwned_password ascii_tables (respond 200 (str ''OK'') signed_body) (str ''password'')
     = ([str ''https://api.pwnedpasswords.com/range/5BAA6''], Inr (- 5))"
  by (simp add: check_pwned_password_def sha1password_of_password Let_def password_url
        password_suffix respond_def raise_for_status_def)
     (simp add: signed_body_def str_def splitlines_def is_linebreak_def split_colon_def
        py_int_def to_ascii_def ascii_space_def ascii_digit_def too_many_digits_def
        decimal_value_def Let_def)

text \<open>
  C9. When the body of a 200 response has, with no matching line before it, a line that
  does not split into exactly two fields, or a matching line whose count
  \<^verbatim>\<open>int\<close> rejects, the breach check ends with a \<^verbatim>\<open>ValueError\<close>: not a
  \<^verbatim>\<open>RuntimeError\<close>, and no count.
\<close>

theorem C9_malformed_raises:
  assumes "sha1password_of p = Inr h"
    and "svc (api_base @ take 5 h) = Returned r"
    and "status_code r = 200"
    and "splitlines (text' r) = pre @ l # post"
    and "\<not> list_ex (matches (drop 5 h)) pre"
    and "malformed I (drop 5 h) l"
  shows "snd (check_pwned_password I svc p) = Inl ValueError
     \<and> (\<forall>m. snd (check_pwned_password I svc p) \<noteq> Inl (RuntimeError m))
     \<and> (\<forall>n. snd (check_pwned_password I svc p) \<noteq> Inr n)"
proof -
  have "raise_for_status r = None"
    using assms(3) by (simp add: raise_for_status_def)
  then have res: "snd (check_pwned_password I svc p) = scan I (drop 5 h) (pre @ l # post)"
    using check_returned [of p h svc r I] assms(1,2,4) by simp
  have "scan I (drop 5 h) (pre @ l # post) = Inl ValueError"
  proof (cases "unpacks l")
    case False
    then show ?thesis using assms(5) by (rule scan_malformed [rotated])
  next
    case True
    with assms(6) obtain c where "split_colon l = [drop 5 h, c]" and "isl (py_int I c)"
      by (auto simp: malformed_def)
    moreover from this obtain e where "py_int I c = Inl e"
      by (cases "py_int I c") auto
    ultimately show ?thesis
      using assms(5) scan_bad_count by blast
  qed
  then show ?thesis using res by simp
qed

theorem C9_malformed_raises_witness:
  "sha1password_of (str ''password'') = Inr (str ''5BAA61E4C9B93F3F0682250B6CF8331B7EE68FD8'')
   \<and> splitlines broken_body
       = [str ''0018A45C4D1DEF81644B54AB7F969B88D65:1''] @ str ''Service busy''
           # [str ''1E4C9B93F3F0682250B6CF8331B7EE68FD8:3730471'']
   \<and> \<not> list_ex (matches (str ''1E4C9B93F3F0682250B6CF8331B7EE68FD8''))
         [str ''0018A45C4D1DEF81644B54AB7F969B88D65:1'']
   \<and> malformed ascii_tables (str ''1E4C9B93F3F0682250B6CF8331B7EE68FD8'') (str ''Service busy'')
   \<and> snd (check_pwned_password ascii_tables (respond 200 (str ''OK'') broken_body) (str ''password''))
       = Inl ValueError"
proof -
  let ?svc = "respond 200 (str ''OK'') broken_body"
  let ?h = "str ''5BAA61E4C9B93F3F0682250B6CF8331B7EE68FD8''"
  let ?r = "\<lparr>status_code = 200, reason = str ''OK'', url = api_base @ take 5 ?h,
             text' = broken_body\<rparr>"
  have ret: "?svc (api_base @ take 5 ?h) = Returned ?r"
    by (simp add: respond_def)
  have st: "status_code ?r = 200" by simp
  have ls: "splitlines (text' ?r)
       = [str ''0018A45C4D1DEF81644B54AB7F969B88D65:1''] @ str ''Service busy''
           # [str ''1E4C9B93F3F0682250B6CF8331B7EE68FD8:3730471'']"
    by (simp add: broken_body_def str_def splitlines_def is_linebreak_def)
  have nm: "\<not> list_ex (matches (drop 5 ?h)) [str ''0018A45C4D1DEF81644B54AB7F969B88D65:1'']"
    by (simp add: matches_def line_suffix_def sample_fields) (simp add: str_def)
  have mal: "malformed ascii_tables (drop 5 ?h) (str ''Service busy'')"
    by (simp add: malformed_def unpacks_def split_colon_def str_def)
  show ?thesis
    using C9_malformed_raises [of "str ''password''" ?h ?svc ?r
        "[str ''0018A45C4D1DEF81644B54AB7F969B88D65:1'']" "str ''Service busy''"
        "[str ''1E4C9B93F3F0682250B6CF8331B7EE68FD8:3730471'']" ascii_tables]
      sha1password_of_password ret st ls nm mal
    by (simp add: password_suffix)
qed



end
